theory Spec2Isabelle
  imports Main "HOL-Library.Sublist"
begin

section \<open>Utility functions of \<open>rasa.nlu.utils\<close>\<close>

text \<open>
  A shallow embedding of \<^verbatim>\<open>src/rasa/nlu/utils/__init__.py\<close>. Python text is a
  \<open>string\<close>, an optional argument is an \<open>option\<close>, and every exception a call can
  raise is a value of \<open>error\<close>, returned on the left of a sum.
\<close>

datatype error =
    TypeError
  | ValueError string
  | FileNotFoundError
  | NotADirectoryError

subsection \<open>\<open>is_url\<close>\<close>

text \<open>
  The pattern \<^verbatim>\<open>r"http://|https://|ftp://|file://|file:\\"\<close> is an alternation of five
  literal branches; the last branch ends in one backslash (character 92), which the
  pattern writes escaped.
\<close>

definition URL_REGEX :: "string list" where
  "URL_REGEX = [''http://'', ''https://'', ''ftp://'', ''file://'', ''file:'' @ [CHR 0x5C]]"

text \<open>
  \<^verbatim>\<open>Pattern.match\<close> for an alternation of literals: the branches are tried in order
  at position 0 of the text only, and the first branch that the text starts with is the
  match. The result is the matched text, or \<open>None\<close> when no branch matches.
\<close>

fun re_match :: "string list \<Rightarrow> string \<Rightarrow> string option" where
  "re_match [] s = None"
| "re_match (p # ps) s = (if prefix p s then Some p else re_match ps s)"

text \<open>
  \<^verbatim>\<open>is_url(resource_name)\<close>. The argument is annotated \<^verbatim>\<open>Text\<close>; Python does not
  enforce the annotation, and \<^verbatim>\<open>Pattern.match(None)\<close> raises \<^verbatim>\<open>TypeError\<close>.
\<close>

fun is_url :: "string option \<Rightarrow> error + bool" where
  "is_url None = Inl TypeError"
| "is_url (Some resource_name) = Inr (re_match URL_REGEX resource_name \<noteq> None)"

text \<open>ASCII lower-casing, used to say what a case variant of a scheme prefix is.\<close>

definition ascii_lower :: "char \<Rightarrow> char" where
  "ascii_lower c =
     (let n = (of_char c :: nat) in if 65 \<le> n \<and> n \<le> 90 then char_of (n + 32) else c)"

subsection \<open>\<open>list_to_str\<close>\<close>

text \<open>
  \<^verbatim>\<open>str.join\<close>: the items in order, with the separator between neighbours and
  nowhere else.
\<close>

fun str_join :: "string \<Rightarrow> string list \<Rightarrow> string" where
  "str_join sep [] = []"
| "str_join sep [x] = x"
| "str_join sep (x # y # ys) = x @ sep @ str_join sep (y # ys)"

text \<open>
  \<^verbatim>\<open>list_to_str(lst, delim=", ", quote="'")\<close>: the comprehension wraps each item, the
  join puts them together. The two defaults are the constants below; the quote is the
  single character 39.
\<close>

definition list_to_str :: "string list \<Rightarrow> string \<Rightarrow> string \<Rightarrow> string" where
  "list_to_str lst delim quote = str_join delim (map (\<lambda>e. quote @ e @ quote) lst)"

definition default_delim :: string where
  "default_delim = '', ''"

definition default_quote :: string where
  "default_quote = [CHR 0x27]"

text \<open>
  The number of occurrences of \<open>sub\<close> in a text: the positions at which \<open>sub\<close> starts.
  (For the two-character delimiter, which cannot overlap itself, this is also what
  \<^verbatim>\<open>str.count\<close> returns.)
\<close>

fun occurrences :: "string \<Rightarrow> string \<Rightarrow> nat" where
  "occurrences sub [] = (if sub = [] then 1 else 0)"
| "occurrences sub (c # cs) = (if prefix sub (c # cs) then 1 else 0) + occurrences sub cs"

subsection \<open>\<open>build_entity\<close>\<close>

text \<open>
  Python values of no fixed type (\<^verbatim>\<open>Any\<close>): what a dictionary entry or a keyword
  argument may hold.
\<close>

datatype pyval =
    PyNone
  | PyBool bool
  | PyInt int
  | PyStr string
  | PyList "pyval list"
  | PyDict "(string \<times> pyval) list"

text \<open>
  A dictionary with text keys, read by key. Two dictionaries are equal when they hold
  the same value under every key, as in Python.
\<close>

type_synonym pydict = "string \<rightharpoonup> pyval"









subsection \<open>A file system\<close>

text \<open>
  The model directory functions read and change the file system, so the model carries
  it as a value. A node is a regular file or a directory with its named entries (each
  name once, in listing order); the state is the list of entries of the directory that
  path names are resolved from. Symbolic links, permissions and the contents of files
  are outside this model.
\<close>

datatype node =
    File
  | Dir "(string \<times> node) list"

type_synonym filesystem = "(string \<times> node) list"

text \<open>\<^verbatim>\<open>str.split(sep)\<close> for a one-character separator: always at least one piece.\<close>

fun str_split :: "char \<Rightarrow> string \<Rightarrow> string list" where
  "str_split sep [] = [[]]"
| "str_split sep (c # cs) =
     (if c = sep then [] # str_split sep cs
      else (case str_split sep cs of
              [] \<Rightarrow> [[c]]
            | piece # pieces \<Rightarrow> (c # piece) # pieces))"

text \<open>
  The names a path text consists of: its pieces between slashes, empty pieces dropped
  (so repeated and trailing slashes do not matter). The empty path has no names and
  denotes nothing, as for the operating system.
\<close>

definition path_names :: "string \<Rightarrow> string list" where
  "path_names path = filter (\<lambda>name. name \<noteq> []) (str_split (CHR ''/'') path)"

fun lookup_names :: "string list \<Rightarrow> (string \<times> node) list \<Rightarrow> node option" where
  "lookup_names [] entries = None"
| "lookup_names [name] entries = map_of entries name"
| "lookup_names (name # rest) entries =
     (case map_of entries name of
        Some (Dir children) \<Rightarrow> lookup_names rest children
      | _ \<Rightarrow> None)"

definition lookup :: "filesystem \<Rightarrow> string \<Rightarrow> node option" where
  "lookup fs path = lookup_names (path_names path) fs"

text \<open>
  \<^verbatim>\<open>os.scandir(path)\<close>: the entries of a directory; it fails on a path that does not
  exist and on one that is not a directory.
\<close>

definition os_scandir :: "filesystem \<Rightarrow> string \<Rightarrow> error + (string \<times> node) list" where
  "os_scandir fs path =
     (case lookup fs path of
        None \<Rightarrow> Inl FileNotFoundError
      | Some File \<Rightarrow> Inl NotADirectoryError
      | Some (Dir entries) \<Rightarrow> Inr entries)"

text \<open>\<^verbatim>\<open>os.path.join(a, b)\<close> of \<^verbatim>\<open>posixpath\<close>, for two arguments.\<close>

definition os_path_join :: "string \<Rightarrow> string \<Rightarrow> string" where
  "os_path_join a b =
     (if prefix ''/'' b then b
      else if a = [] \<or> suffix ''/'' a then a @ b
      else a @ ''/'' @ b)"

fun is_dir :: "node \<Rightarrow> bool" where
  "is_dir File = False"
| "is_dir (Dir entries) = True"

definition dirnames :: "(string \<times> node) list \<Rightarrow> string list" where
  "dirnames entries = map fst (filter (\<lambda>(name, n). is_dir n) entries)"

definition filenames :: "(string \<times> node) list \<Rightarrow> string list" where
  "filenames entries = map fst (filter (\<lambda>(name, n). \<not> is_dir n) entries)"

text \<open>
  \<^verbatim>\<open>os.walk(top)\<close> with its defaults (top-down, \<^verbatim>\<open>onerror=None\<close>): one triple
  \<^verbatim>\<open>(dirpath, dirnames, filenames)\<close> for \<open>top\<close>, then the triples of each subdirectory in
  turn. With \<^verbatim>\<open>onerror=None\<close> the error of a failing \<^verbatim>\<open>scandir\<close> is ignored and the
  walk of that directory yields nothing. (The parameter \<open>top\<close> is written \<open>top'\<close>.)
\<close>

type_synonym walk_entry = "string \<times> string list \<times> string list"

fun walk_dir :: "string \<Rightarrow> (string \<times> node) list \<Rightarrow> walk_entry list"
  and walk_subdirs :: "string \<Rightarrow> (string \<times> node) list \<Rightarrow> walk_entry list" where
  "walk_dir top' entries = (top', dirnames entries, filenames entries) # walk_subdirs top' entries"
| "walk_subdirs top' [] = []"
| "walk_subdirs top' ((name, File) # entries) = walk_subdirs top' entries"
| "walk_subdirs top' ((name, Dir children) # entries) =
     walk_dir (os_path_join top' name) children @ walk_subdirs top' entries"

definition os_walk :: "filesystem \<Rightarrow> string \<Rightarrow> walk_entry list" where
  "os_walk fs top' =
     (case os_scandir fs top' of
        Inl err \<Rightarrow> []
      | Inr entries \<Rightarrow> walk_dir top' entries)"

text \<open>
  \<^verbatim>\<open>str.rfind\<close> for one character: the last index at which it stands, or \<open>-1\<close>.
\<close>

fun str_find :: "char \<Rightarrow> string \<Rightarrow> nat option" where
  "str_find c [] = None"
| "str_find c (x # xs) = (if x = c then Some 0 else map_option Suc (str_find c xs))"

definition str_rfind :: "char \<Rightarrow> string \<Rightarrow> int" where
  "str_rfind c s =
     (case str_find c (rev s) of
        None \<Rightarrow> - 1
      | Some i \<Rightarrow> int (length s) - 1 - int i)"

text \<open>
  \<^verbatim>\<open>os.path.splitext(p)\<close> of \<^verbatim>\<open>posixpath\<close>. The extension starts at the last dot,
  provided that dot comes after the last slash and some character between the slash and
  the dot is not a dot (leading dots of a name do not start an extension). The loop of
  the library is \<open>splitext_scan\<close>: it looks for that character.
\<close>

function splitext_scan :: "string \<Rightarrow> int \<Rightarrow> int \<Rightarrow> bool" where
  "splitext_scan p filenameIndex dotIndex =
     (if filenameIndex < dotIndex
      then (if p ! nat filenameIndex \<noteq> CHR ''.'' then True
            else splitext_scan p (filenameIndex + 1) dotIndex)
      else False)"
  by pat_completeness auto
termination
  by (relation "measure (\<lambda>(p, filenameIndex, dotIndex). nat (dotIndex - filenameIndex))") auto

definition os_path_splitext :: "string \<Rightarrow> string \<times> string" where
  "os_path_splitext p =
     (let sepIndex = str_rfind (CHR ''/'') p;
          dotIndex = str_rfind (CHR ''.'') p
      in if dotIndex > sepIndex \<and> splitext_scan p (sepIndex + 1) dotIndex
         then (take (nat dotIndex) p, drop (nat dotIndex) p)
         else (p, []))"

subsection \<open>\<open>is_model_dir\<close> and \<open>remove_model\<close>\<close>

text \<open>
  \<^verbatim>\<open>is_model_dir(model_dir)\<close>. \<^verbatim>\<open>dir_tree[0]\<close> is read only when the list has exactly
  one triple, which is the first case below. No step of the function raises, the failing
  directory listing included: the walk swallows it.
\<close>

definition is_model_dir :: "filesystem \<Rightarrow> string \<Rightarrow> error + bool" where
  "is_model_dir fs model_dir =
     (let allowed_extensions = {''.json'', ''.pkl'', ''.dat''};
          dir_tree = os_walk fs model_dir
      in case dir_tree of
           [(model_dir', child_dirs, files)] \<Rightarrow>
             (let file_extenstions = map (\<lambda>f. snd (os_path_splitext f)) files;
                  only_valid_files = list_all (\<lambda>ext. ext \<in> allowed_extensions) file_extenstions
              in Inr only_valid_files)
         | _ \<Rightarrow> Inr False)"

text \<open>
  \<^verbatim>\<open>shutil.rmtree(path)\<close>: the directory and everything under it is gone afterwards.
  It fails, changing nothing, when the path does not exist or is not a directory.
\<close>

fun remove_names :: "string list \<Rightarrow> (string \<times> node) list \<Rightarrow> (string \<times> node) list" where
  "remove_names [] entries = entries"
| "remove_names [name] entries = filter (\<lambda>(k, n). k \<noteq> name) entries"
| "remove_names (name # rest) entries =
     map (\<lambda>(k, n). if k = name
                     then (case n of Dir children \<Rightarrow> (k, Dir (remove_names rest children))
                                   | File \<Rightarrow> (k, n))
                     else (k, n)) entries"

definition shutil_rmtree :: "filesystem \<Rightarrow> string \<Rightarrow> (error + unit) \<times> filesystem" where
  "shutil_rmtree fs path =
     (case lookup fs path of
        None \<Rightarrow> (Inl FileNotFoundError, fs)
      | Some File \<Rightarrow> (Inl NotADirectoryError, fs)
      | Some (Dir entries) \<Rightarrow> (Inr (), remove_names (path_names path) fs))"

text \<open>
  \<^verbatim>\<open>remove_model(model_dir)\<close>: the result, or the exception raised, together with the
  file system the call leaves behind.
\<close>

definition remove_model :: "filesystem \<Rightarrow> string \<Rightarrow> (error + bool) \<times> filesystem" where
  "remove_model fs model_dir =
     (case is_model_dir fs model_dir of
        Inl err \<Rightarrow> (Inl err, fs)
      | Inr True \<Rightarrow>
          (case shutil_rmtree fs model_dir of
             (Inl err, fs') \<Rightarrow> (Inl err, fs')
           | (Inr u, fs') \<Rightarrow> (Inr True, fs'))
      | Inr False \<Rightarrow>
          (Inl (ValueError (''Cannot remove '' @ model_dir
                  @ '', it seems it is not a model directory'')), fs))"


text \<open>
  A small file system to run the functions on: one flat directory of model files, one
  with a subdirectory, one with a text file, an empty one, one whose only file is named
  \<open>.json\<close> (a name without extension), one with an upper-case extension, and a file
  beside them.
\<close>

definition example_fs :: filesystem where
  "example_fs =
     [(''models'',
       Dir [(''m1'', Dir [(''a.json'', File), (''b.pkl'', File)]),
            (''m2'', Dir [(''a.json'', File), (''b.pkl'', File), (''c'', Dir [])]),
            (''m3'', Dir [(''a.json'', File), (''a.txt'', File)]),
            (''m4'', Dir []),
            (''m5'', Dir [(''.json'', File)]),
            (''m6'', Dir [(''a.JSON'', File)])]),
      (''notes.txt'', File)]"

subsection \<open>\<open>json_to_string\<close>\<close>

text \<open>
  \<^verbatim>\<open>dict.pop(key, default)\<close>: the value under the key, or the default, and the
  dictionary without the key.
\<close>

definition dict_pop :: "pydict \<Rightarrow> string \<Rightarrow> pyval \<Rightarrow> pyval \<times> pydict" where
  "dict_pop d key default' =
     (case d key of
        None \<Rightarrow> (default', d)
      | Some v \<Rightarrow> (v, d(key := None)))"

text \<open>
  \<^verbatim>\<open>json.dumps\<close> belongs to the standard library, not to this module; the model
  takes it as a parameter. Its arguments are the object, the keyword \<open>indent\<close>, the
  keyword \<open>ensure_ascii\<close>, and the other keyword arguments; it returns the text or
  raises.
\<close>

type_synonym json_dumps = "pyval \<Rightarrow> pyval \<Rightarrow> pyval \<Rightarrow> pydict \<Rightarrow> error + string"

text \<open>
  \<^verbatim>\<open>json_to_string(obj, **kwargs)\<close>: the two pops, in the order of the source, then the
  call of the serializer with what is left of \<open>kwargs\<close>.
\<close>

definition json_to_string :: "json_dumps \<Rightarrow> pyval \<Rightarrow> pydict \<Rightarrow> error + string" where
  "json_to_string dumps obj kwargs =
     (let (indent, kwargs) = dict_pop kwargs ''indent'' (PyInt 2);
          (ensure_ascii, kwargs) = dict_pop kwargs ''ensure_ascii'' (PyBool False)
      in dumps obj indent ensure_ascii kwargs)"

subsection \<open>\<open>relative_normpath\<close>\<close>

text \<open>
  The functions of \<^verbatim>\<open>posixpath\<close> behind \<^verbatim>\<open>os.path.relpath\<close>. The current working
  directory, which \<^verbatim>\<open>abspath\<close> reads from the process, is the parameter \<open>cwd\<close>.
\<close>

definition os_path_isabs :: "string \<Rightarrow> bool" where
  "os_path_isabs s = prefix ''/'' s"

text \<open>
  The loop of \<^verbatim>\<open>normpath\<close> over the pieces of the path: empty pieces and \<open>.\<close> are
  skipped, \<open>..\<close> removes the piece before it where there is one to remove, and is kept
  only at the front of a relative path. (The loop variable \<open>comp\<close> is written \<open>comp'\<close>.)
\<close>

fun normpath_loop :: "bool \<Rightarrow> string list \<Rightarrow> string list \<Rightarrow> string list" where
  "normpath_loop initial_slashes new_comps [] = new_comps"
| "normpath_loop initial_slashes new_comps (comp' # comps) =
     (if comp' = [] \<or> comp' = ''.'' then normpath_loop initial_slashes new_comps comps
      else if comp' \<noteq> ''..'' \<or> (\<not> initial_slashes \<and> new_comps = [])
              \<or> (new_comps \<noteq> [] \<and> last new_comps = ''..'')
        then normpath_loop initial_slashes (new_comps @ [comp']) comps
      else if new_comps \<noteq> [] then normpath_loop initial_slashes (butlast new_comps) comps
      else normpath_loop initial_slashes new_comps comps)"

definition os_path_normpath :: "string \<Rightarrow> string" where
  "os_path_normpath path =
     (if path = [] then ''.''
      else
        (let initial_slashes =
               (if prefix ''/'' path
                then (if prefix ''//'' path \<and> \<not> prefix ''///'' path then 2 else 1)
                else (0 :: nat));
             comps = str_split (CHR ''/'') path;
             new_comps = normpath_loop (initial_slashes \<noteq> 0) [] comps;
             joined = replicate initial_slashes (CHR ''/'') @ str_join ''/'' new_comps
         in if joined = [] then ''.'' else joined))"

definition os_path_abspath :: "string \<Rightarrow> string \<Rightarrow> string" where
  "os_path_abspath cwd path =
     (if \<not> os_path_isabs path then os_path_normpath (os_path_join cwd path)
      else os_path_normpath path)"

text \<open>
  \<^verbatim>\<open>commonprefix\<close> on two lists of names: the library compares the smaller and the
  larger list item by item and returns the items before the first difference, which is
  their longest common prefix.
\<close>

fun commonprefix :: "string list \<Rightarrow> string list \<Rightarrow> string list" where
  "commonprefix (x # xs) (y # ys) = (if x = y then x # commonprefix xs ys else [])"
| "commonprefix xs ys = []"

text \<open>
  \<^verbatim>\<open>os.path.relpath(path, start)\<close>. An empty \<open>path\<close> is refused with
  \<^verbatim>\<open>ValueError\<close>; otherwise both paths are made absolute, the common leading names are
  dropped, and the answer climbs out of what is left of \<open>start\<close> and descends into what is
  left of \<open>path\<close>. The last line is \<^verbatim>\<open>join(*rel_list)\<close>.
\<close>

definition os_path_relpath :: "string \<Rightarrow> string \<Rightarrow> string \<Rightarrow> error + string" where
  "os_path_relpath cwd path start =
     (if path = [] then Inl (ValueError ''no path specified'')
      else
        (let start_list =
               filter (\<lambda>x. x \<noteq> []) (str_split (CHR ''/'') (os_path_abspath cwd start));
             path_list =
               filter (\<lambda>x. x \<noteq> []) (str_split (CHR ''/'') (os_path_abspath cwd path));
             i = length (commonprefix start_list path_list);
             rel_list = replicate (length start_list - i) ''..'' @ drop i path_list
         in case rel_list of
              [] \<Rightarrow> Inr ''.''
            | a # p \<Rightarrow> Inr (foldl os_path_join a p)))"

text \<open>
  A \<^verbatim>\<open>pathlib.Path\<close> on a POSIX system: the root (empty, one slash or two) and the
  parts. The constructor drops empty pieces and \<open>.\<close> pieces, nothing else.
\<close>

datatype posix_path = PosixPath string "string list"

definition Path :: "string \<Rightarrow> posix_path" where
  "Path s =
     PosixPath
       (if prefix ''//'' s \<and> \<not> prefix ''///'' s then ''//''
        else if prefix ''/'' s then ''/'' else [])
       (filter (\<lambda>c. c \<noteq> [] \<and> c \<noteq> ''.'') (str_split (CHR ''/'') s))"

text \<open>\<^verbatim>\<open>relative_normpath(f, path)\<close>.\<close>

definition relative_normpath :: "string \<Rightarrow> string option \<Rightarrow> string \<Rightarrow> error + posix_path option" where
  "relative_normpath cwd f path =
     (case f of
        Some f' \<Rightarrow>
          (case os_path_relpath cwd f' path of
             Inl err \<Rightarrow> Inl err
           | Inr rel \<Rightarrow> Inr (Some (Path rel)))
      | None \<Rightarrow> Inr None)"

text \<open>The names of a path made absolute: what \<^verbatim>\<open>relpath\<close> compares.\<close>

definition abs_names :: "string \<Rightarrow> string \<Rightarrow> string list" where
  "abs_names cwd path =
     filter (\<lambda>x. x \<noteq> []) (str_split (CHR ''/'') (os_path_abspath cwd path))"

text \<open>
  Plain names: none is empty, \<open>.\<close> or \<open>..\<close>, and none contains a slash. This is what
  a normalized list of path segments consists of.
\<close>

definition clean :: "string list \<Rightarrow> bool" where
  "clean xs = (\<forall>x \<in> set xs. x \<noteq> [] \<and> x \<noteq> ''.'' \<and> x \<noteq> ''..'' \<and> CHR ''/'' \<notin> set x)"

section \<open>Properties\<close>

subsection \<open>URL detection\<close>

text \<open>
  Claim C6, as the code has it. For every string \<open>text\<close>, \<open>is_url\<close> returns true exactly
  when \<open>text\<close> starts with one of the five literal prefixes \<open>http://\<close>, \<open>https://\<close>,
  \<open>ftp://\<close>, \<open>file://\<close> or \<open>file:\<close> followed by a backslash; nothing is required of the
  rest of the string. It returns false for the empty string and for a scheme-less path.
  An absent argument is not answered with false: the call raises \<open>TypeError\<close>.
\<close>

theorem is_url_prefixes:
  "is_url (Some text) =
     Inr (prefix ''http://'' text \<or> prefix ''https://'' text \<or> prefix ''ftp://'' text \<or>
          prefix ''file://'' text \<or> prefix (''file:'' @ [CHR 0x5C]) text)
   \<and> is_url (Some '''') = Inr False
   \<and> is_url (Some ''example.com'') = Inr False
   \<and> is_url (Some ''https://example.com'') = Inr True
   \<and> is_url None = Inl TypeError"
  by (simp add: URL_REGEX_def)

text \<open>
  Claim C6 as stated says that absent input gives false. It does not: the call with
  \<open>None\<close> returns no boolean at all.
\<close>

theorem is_url_absent_counterexample:
  "is_url None \<noteq> Inr False"
  by simp

text \<open>
  Claim C10. The match is case-sensitive: when the first characters of \<open>text\<close> spell a
  recognized prefix \<open>p\<close> after lower-casing, but are not \<open>p\<close> itself (some letter is in
  upper case), \<open>is_url\<close> returns false.
\<close>

theorem is_url_case_sensitive:
  assumes "p \<in> set URL_REGEX"
    and "map ascii_lower (take (length p) text) = p"
    and "take (length p) text \<noteq> p"
  shows "is_url (Some text) = Inr False"
proof -
  have "\<not> prefix q text" if q: "q \<in> set URL_REGEX" for q
  proof
    assume "prefix q text"
    then obtain r where t: "text = q @ r"
      by (auto simp: prefix_def)
    from assms q show False
      unfolding t by (auto simp: URL_REGEX_def ascii_lower_def Let_def)
  qed
  then show ?thesis
    by (simp add: URL_REGEX_def)
qed

theorem is_url_case_sensitive_witness:
  "is_url (Some ''HTTP://example.com'') = Inr False
   \<and> is_url (Some ''File://x'') = Inr False"
proof -
  have a: "is_url (Some ''HTTP://example.com'') = Inr False"
    using is_url_case_sensitive [of "''http://''" "''HTTP://example.com''"]
    by (simp add: URL_REGEX_def ascii_lower_def)
  have b: "is_url (Some ''File://x'') = Inr False"
    using is_url_case_sensitive [of "''file://''" "''File://x''"]
    by (simp add: URL_REGEX_def ascii_lower_def)
  from a b show ?thesis by simp
qed

subsection \<open>Joining quoted items\<close>

lemma occurrences_delim_append:
  "xs = [] \<or> last xs \<noteq> CHR '','' \<or> ys = [] \<or> hd ys \<noteq> CHR '' '' \<Longrightarrow>
   occurrences '', '' (xs @ ys) = occurrences '', '' xs + occurrences '', '' ys"
proof (induction xs)
  case Nil
  then show ?case by simp
next
  case (Cons c cs)
  then show ?case
    by (cases cs; cases ys) (auto split: if_splits)
qed

lemma occurrences_delim_quoted:
  "occurrences '', '' ([CHR 0x27] @ e @ [CHR 0x27]) = occurrences '', '' e"
  using occurrences_delim_append [of "[CHR 0x27]" "e @ [CHR 0x27]"]
    occurrences_delim_append [of e "[CHR 0x27]"]
  by simp

lemma occurrences_delim_join:
  assumes "\<forall>e \<in> set lst. occurrences '', '' e = 0"
  shows "occurrences '', '' (str_join '', '' (map (\<lambda>e. [CHR 0x27] @ e @ [CHR 0x27]) lst))
         = length lst - 1"
  using assms
proof (induction lst)
  case Nil
  then show ?case by simp
next
  case (Cons e es)
  let ?w = "\<lambda>e. [CHR 0x27] @ e @ [CHR 0x27]"
  show ?case
  proof (cases es)
    case Nil
    with Cons.prems show ?thesis
      using occurrences_delim_quoted [of e] by simp
  next
    case (Cons e' es')
    let ?rest = "str_join '', '' (map ?w es)"
    have IH: "occurrences '', '' ?rest = length es - 1"
      using Cons.IH Cons.prems by simp
    have hd: "?rest \<noteq> [] \<and> hd ?rest = CHR 0x27"
      using Cons by (cases es') simp_all
    have "str_join '', '' (map ?w (e # es)) = ?w e @ ('', '' @ ?rest)"
      using Cons by simp
    moreover have "occurrences '', '' (?w e @ ('', '' @ ?rest))
        = occurrences '', '' (?w e) + occurrences '', '' ('', '' @ ?rest)"
      by (rule occurrences_delim_append) simp
    moreover have "occurrences '', '' ('', '' @ ?rest) = 1 + occurrences '', '' ?rest"
      using hd by (cases ?rest) auto
    moreover have "occurrences '', '' (?w e) = 0"
      using occurrences_delim_quoted [of e] Cons.prems by simp
    ultimately show ?thesis
      using IH Cons by simp
  qed
qed

lemma str_join_quoted_sublist:
  "e \<in> set lst \<Longrightarrow> sublist (q @ e @ q) (str_join d (map (\<lambda>e. q @ e @ q) lst))"
proof (induction lst)
  case Nil
  then show ?case by simp
next
  case (Cons a as)
  show ?case
  proof (cases "e = a")
    case True
    then show ?thesis
      by (cases as) (auto simp: sublist_def intro: exI[of _ "[]"])
  next
    case False
    with Cons have "sublist (q @ e @ q) (str_join d (map (\<lambda>e. q @ e @ q) as))"
      by simp
    then obtain ps ss where "str_join d (map (\<lambda>e. q @ e @ q) as) = ps @ (q @ e @ q) @ ss"
      by (auto simp: sublist_def)
    moreover have "as \<noteq> []"
      using Cons.prems False by auto
    ultimately have "str_join d (map (\<lambda>e. q @ e @ q) (a # as))
        = ((q @ a @ q) @ d @ ps) @ (q @ e @ q) @ ss"
      by (cases as) simp_all
    then show ?thesis
      unfolding sublist_def by blast
  qed
qed

text \<open>
  Claim C5, as the code has it. With the default delimiter and quote, and for a
  sequence whose items do not themselves contain the delimiter, the result has exactly
  \<open>len(s) - 1\<close> occurrences of the delimiter; every item stands in the result between two
  quote characters; and the empty sequence gives the empty string.
\<close>

theorem list_to_str_default:
  assumes "lst \<noteq> []"
    and "\<forall>e \<in> set lst. occurrences default_delim e = 0"
  shows "occurrences default_delim (list_to_str lst default_delim default_quote) = length lst - 1
    \<and> (\<forall>e \<in> set lst. sublist (default_quote @ e @ default_quote)
          (list_to_str lst default_delim default_quote))
    \<and> list_to_str [] default_delim default_quote = []"
proof -
  have "occurrences default_delim (list_to_str lst default_delim default_quote) = length lst - 1"
    using assms(2) occurrences_delim_join [of lst]
    by (simp add: list_to_str_def default_delim_def default_quote_def)
  moreover have "\<forall>e \<in> set lst. sublist (default_quote @ e @ default_quote)
      (list_to_str lst default_delim default_quote)"
    unfolding list_to_str_def by (blast intro: str_join_quoted_sublist)
  moreover have "list_to_str [] default_delim default_quote = []"
    by (simp add: list_to_str_def)
  ultimately show ?thesis by blast
qed

theorem list_to_str_default_witness:
  "occurrences default_delim (list_to_str [''a'', ''b'', ''c''] default_delim default_quote) = 2
   \<and> sublist (default_quote @ ''b'' @ default_quote)
        (list_to_str [''a'', ''b'', ''c''] default_delim default_quote)
   \<and> list_to_str [''a'', ''b'', ''c''] default_delim default_quote
        = [CHR 0x27] @ ''a'' @ [CHR 0x27] @ '', '' @ [CHR 0x27] @ ''b'' @ [CHR 0x27] @ '', ''
          @ [CHR 0x27] @ ''c'' @ [CHR 0x27]"
proof -
  have "[''a'', ''b'', ''c''] \<noteq> ([] :: string list)"
    by simp
  moreover have "\<forall>e \<in> set [''a'', ''b'', ''c'']. occurrences default_delim e = 0"
    by (simp add: default_delim_def)
  ultimately show ?thesis
    using list_to_str_default [of "[''a'', ''b'', ''c'']"]
    by (simp add: list_to_str_def default_delim_def default_quote_def)
qed

text \<open>
  Claim C5 as stated counts the delimiters for every sequence. An item that contains the
  delimiter adds an occurrence: the one-item list below gives a text with one occurrence,
  not zero.
\<close>

theorem list_to_str_delim_counterexample:
  "occurrences default_delim (list_to_str [''a, b''] default_delim default_quote)
     \<noteq> length [''a, b''] - 1"
  by (simp add: list_to_str_def default_delim_def default_quote_def)

subsection \<open>Entity records\<close>









subsection \<open>Model directories\<close>

lemma walk_subdirs_empty_iff:
  "walk_subdirs top' entries = [] \<longleftrightarrow> dirnames entries = []"
proof (induction entries)
  case Nil
  show ?case by (simp add: dirnames_def)
next
  case (Cons entry entries)
  obtain name n where entry: "entry = (name, n)"
    by (cases entry)
  show ?case
    using Cons by (cases n) (simp_all add: entry dirnames_def)
qed


lemma os_walk_directory:
  "lookup fs d = Some (Dir entries) \<Longrightarrow>
   os_walk fs d = (d, dirnames entries, filenames entries) # walk_subdirs d entries"
  by (simp add: os_walk_def os_scandir_def)

lemma os_walk_missing:
  "lookup fs d = None \<Longrightarrow> os_walk fs d = []"
  by (simp add: os_walk_def os_scandir_def)

lemma os_walk_file:
  "lookup fs d = Some File \<Longrightarrow> os_walk fs d = []"
  by (simp add: os_walk_def os_scandir_def)

lemma is_model_dir_directory:
  assumes "lookup fs d = Some (Dir entries)"
  shows "is_model_dir fs d =
    Inr (dirnames entries = [] \<and>
         (\<forall>f \<in> set (filenames entries).
            snd (os_path_splitext f) \<in> {''.json'', ''.pkl'', ''.dat''}))"
proof (cases "walk_subdirs d entries")
  case Nil
  then have "dirnames entries = []"
    by (simp add: walk_subdirs_empty_iff)
  with Nil show ?thesis
    by (simp add: is_model_dir_def os_walk_directory [OF assms] list_all_iff)
next
  case (Cons w ws)
  then have "dirnames entries \<noteq> []"
    using walk_subdirs_empty_iff [of d entries] by simp
  with Cons show ?thesis
    by (simp add: is_model_dir_def os_walk_directory [OF assms])
qed

lemma is_model_dir_True_directory:
  assumes "is_model_dir fs d = Inr True"
  shows "\<exists>entries. lookup fs d = Some (Dir entries)"
proof (cases "lookup fs d")
  case None
  with assms show ?thesis
    by (simp add: is_model_dir_def os_walk_missing)
next
  case (Some n)
  with assms show ?thesis
    by (cases n) (simp_all add: is_model_dir_def os_walk_file)
qed

lemma lookup_names_Nil_iff:
  "lookup_names names entries = Some n \<Longrightarrow> names \<noteq> []"
  by (cases names) simp_all

lemma map_of_filter_removed:
  "map_of (filter (\<lambda>(k, n). k \<noteq> name) entries) name = None"
  by (induction entries) auto

lemma map_of_filter_other:
  "k' \<noteq> name \<Longrightarrow> map_of (filter (\<lambda>(k, n). k \<noteq> name) entries) k' = map_of entries k'"
  by (induction entries) auto

lemma map_of_remove_below_same:
  "map_of (map (\<lambda>(k, n). if k = name
                  then (case n of Dir children \<Rightarrow> (k, Dir (remove_names rest children))
                                | File \<Rightarrow> (k, n))
                  else (k, n)) entries) name
   = map_option (\<lambda>n. case n of Dir children \<Rightarrow> Dir (remove_names rest children) | File \<Rightarrow> File)
       (map_of entries name)"
  by (induction entries) (auto split: node.splits)

lemma map_of_remove_below_other:
  "k' \<noteq> name \<Longrightarrow>
   map_of (map (\<lambda>(k, n). if k = name
                  then (case n of Dir children \<Rightarrow> (k, Dir (remove_names rest children))
                                | File \<Rightarrow> (k, n))
                  else (k, n)) entries) k'
   = map_of entries k'"
  by (induction entries) (auto split: node.splits)

lemma lookup_names_removed:
  "names \<noteq> [] \<Longrightarrow> lookup_names (names @ rest) (remove_names names entries) = None"
proof (induction names arbitrary: entries)
  case Nil
  then show ?case by simp
next
  case (Cons name names)
  show ?case
  proof (cases names)
    case Nil
    show ?thesis
      by (cases rest) (simp_all add: Nil map_of_filter_removed)
  next
    case names: (Cons m ms)
    have IH: "lookup_names (m # ms @ rest) (remove_names (m # ms) children) = None" for children
      using Cons.IH [of children] names by simp
    show ?thesis
    proof (cases "map_of entries name")
      case None
      then show ?thesis
        by (simp add: names map_of_remove_below_same)
    next
      case (Some n)
      then show ?thesis
        by (cases n) (simp_all add: names map_of_remove_below_same IH)
    qed
  qed
qed

lemma lookup_names_kept:
  "\<not> prefix names names' \<Longrightarrow> \<not> prefix names' names \<Longrightarrow>
   lookup_names names' (remove_names names entries) = lookup_names names' entries"
proof (induction names arbitrary: names' entries)
  case Nil
  then show ?case by simp
next
  case (Cons name names)
  from Cons.prems obtain k rest' where names': "names' = k # rest'"
    by (cases names') auto
  show ?case
  proof (cases names)
    case Nil
    with Cons.prems names' have "k \<noteq> name"
      by auto
    then show ?thesis
      by (cases rest') (simp_all add: Nil names' map_of_filter_other)
  next
    case names: (Cons m ms)
    show ?thesis
    proof (cases "k = name")
      case False
      then show ?thesis
        by (cases rest') (simp_all add: names names' map_of_remove_below_other)
    next
      case True
      with Cons.prems names' have np: "\<not> prefix names rest'" "\<not> prefix rest' names"
        by auto
      then obtain k2 r2 where rest': "rest' = k2 # r2"
        by (cases rest') auto
      have IH: "lookup_names rest' (remove_names names children) = lookup_names rest' children"
        for children
        using Cons.IH [OF np] .
      show ?thesis
      proof (cases "map_of entries name")
        case None
        then show ?thesis
          by (simp add: True names names' rest' map_of_remove_below_same)
      next
        case (Some n)
        then show ?thesis
          using IH by (cases n) (simp_all add: True names names' rest' map_of_remove_below_same)
      qed
    qed
  qed
qed

lemma is_model_dir_total:
  "is_model_dir fs d = Inr False \<or> is_model_dir fs d = Inr True"
  by (auto simp: is_model_dir_def Let_def split: list.splits prod.splits)

lemma example_lookup:
  "lookup example_fs ''models/m1'' = Some (Dir [(''a.json'', File), (''b.pkl'', File)])"
  "lookup example_fs ''models/m2'' =
     Some (Dir [(''a.json'', File), (''b.pkl'', File), (''c'', Dir [])])"
  "lookup example_fs ''models/m3'' = Some (Dir [(''a.json'', File), (''a.txt'', File)])"
  "lookup example_fs ''models/m4'' = Some (Dir [])"
  "lookup example_fs ''models/m5'' = Some (Dir [(''.json'', File)])"
  "lookup example_fs ''models/m6'' = Some (Dir [(''a.JSON'', File)])"
  "lookup example_fs ''models/zz'' = None"
  "lookup example_fs ''notes.txt'' = Some File"
  by (simp_all add: lookup_def path_names_def example_fs_def)

lemma example_splitext:
  "snd (os_path_splitext ''a.json'') = ''.json''"
  "snd (os_path_splitext ''b.pkl'') = ''.pkl''"
  "snd (os_path_splitext ''a.txt'') = ''.txt''"
  "snd (os_path_splitext ''.json'') = ''''"
  "snd (os_path_splitext ''a.JSON'') = ''.JSON''"
  by (simp_all add: os_path_splitext_def str_rfind_def Let_def)



text \<open>
  Claim C2, as the code has it. For a path that does not exist, \<open>is_model_dir\<close> returns
  false: the walk ignores the failure of the directory listing and yields no triple, and
  a walk without exactly one triple is answered with false. The same holds for a path
  that is a regular file.
\<close>

theorem is_model_dir_missing:
  "(lookup fs p = None \<longrightarrow> is_model_dir fs p = Inr False)
   \<and> (lookup fs p = Some File \<longrightarrow> is_model_dir fs p = Inr False)"
  by (simp add: is_model_dir_def os_walk_missing os_walk_file)

theorem is_model_dir_missing_witness:
  "is_model_dir example_fs ''models/zz'' = Inr False
   \<and> is_model_dir example_fs ''notes.txt'' = Inr False"
  using is_model_dir_missing [of example_fs "''models/zz''"]
    is_model_dir_missing [of example_fs "''notes.txt''"]
  by (simp add: example_lookup)

text \<open>
  Claim C2 as stated has the call fail with an error. On the empty file system the path
  \<open>missing\<close> does not exist, and the call returns false.
\<close>

theorem is_model_dir_missing_counterexample:
  "lookup [] ''missing'' = None \<and> is_model_dir [] ''missing'' = Inr False"
  by (simp add: is_model_dir_def os_walk_def os_scandir_def lookup_def path_names_def)

text \<open>
  Claim C1. When \<open>is_model_dir\<close> is false, \<open>remove_model\<close> raises the error whose
  message contains the path, and the file system is as before. When it is true, the call
  returns true, the path and everything under it is gone, and every path that is neither
  under \<open>d\<close> nor on the way to it resolves as before. The check comes first: the file
  system changes only if \<open>is_model_dir\<close> was true.
\<close>

theorem remove_model_checked:
  "(is_model_dir fs d = Inr False \<longrightarrow>
      remove_model fs d =
        (Inl (ValueError (''Cannot remove '' @ d @ '', it seems it is not a model directory'')),
         fs))
   \<and> (is_model_dir fs d = Inr True \<longrightarrow>
      fst (remove_model fs d) = Inr True
      \<and> (\<forall>rest. lookup_names (path_names d @ rest) (snd (remove_model fs d)) = None)
      \<and> (\<forall>names. \<not> prefix (path_names d) names \<and> \<not> prefix names (path_names d) \<longrightarrow>
            lookup_names names (snd (remove_model fs d)) = lookup_names names fs))
   \<and> (snd (remove_model fs d) \<noteq> fs \<longrightarrow> is_model_dir fs d = Inr True)"
proof (intro conjI impI allI)
  assume "is_model_dir fs d = Inr False"
  then show "remove_model fs d =
      (Inl (ValueError (''Cannot remove '' @ d @ '', it seems it is not a model directory'')), fs)"
    by (simp add: remove_model_def)
next
  assume "snd (remove_model fs d) \<noteq> fs"
  then show "is_model_dir fs d = Inr True"
    using is_model_dir_total [of fs d] by (auto simp: remove_model_def)
next
  assume ok: "is_model_dir fs d = Inr True"
  then obtain entries where dir: "lookup fs d = Some (Dir entries)"
    using is_model_dir_True_directory by blast
  then have names: "path_names d \<noteq> []"
    unfolding lookup_def by (rule lookup_names_Nil_iff)
  have rm: "remove_model fs d = (Inr True, remove_names (path_names d) fs)"
    using ok dir by (simp add: remove_model_def shutil_rmtree_def)
  show "fst (remove_model fs d) = Inr True"
    by (simp add: rm)
  show "lookup_names (path_names d @ rest) (snd (remove_model fs d)) = None" for rest
    using names by (simp add: rm lookup_names_removed)
  show "lookup_names names (snd (remove_model fs d)) = lookup_names names fs"
    if "\<not> prefix (path_names d) names \<and> \<not> prefix names (path_names d)" for names
    using that by (simp add: rm lookup_names_kept)
qed

theorem remove_model_checked_witness:
  "remove_model example_fs ''models/m2'' =
     (Inl (ValueError ''Cannot remove models/m2, it seems it is not a model directory''),
      example_fs)
   \<and> fst (remove_model example_fs ''models/m1'') = Inr True
   \<and> lookup (snd (remove_model example_fs ''models/m1'')) ''models/m1'' = None
   \<and> lookup (snd (remove_model example_fs ''models/m1'')) ''models/m4''
       = lookup example_fs ''models/m4''"
proof -
  have m1: "is_model_dir example_fs ''models/m1'' = Inr True"
    using is_model_dir_directory [OF example_lookup(1)]
    by (simp add: dirnames_def filenames_def example_splitext)
  have m2: "is_model_dir example_fs ''models/m2'' = Inr False"
    using is_model_dir_directory [OF example_lookup(2)]
    by (simp add: dirnames_def)
  have n1: "path_names ''models/m1'' = [''models'', ''m1'']"
    and n4: "path_names ''models/m4'' = [''models'', ''m4'']"
    by (simp_all add: path_names_def)
  note r1 = remove_model_checked [of example_fs "''models/m1''"]
  note r2 = remove_model_checked [of example_fs "''models/m2''"]
  have a: "remove_model example_fs ''models/m2'' =
     (Inl (ValueError ''Cannot remove models/m2, it seems it is not a model directory''),
      example_fs)"
    using r2 m2 by simp
  have b: "fst (remove_model example_fs ''models/m1'') = Inr True"
    using r1 m1 by blast
  have "lookup_names (path_names ''models/m1'' @ [])
      (snd (remove_model example_fs ''models/m1'')) = None"
    using r1 m1 by blast
  then have c: "lookup (snd (remove_model example_fs ''models/m1'')) ''models/m1'' = None"
    by (simp add: lookup_def)
  have "\<not> prefix (path_names ''models/m1'') [''models'', ''m4'']
      \<and> \<not> prefix [''models'', ''m4''] (path_names ''models/m1'')"
    by (simp add: n1)
  then have "lookup_names [''models'', ''m4''] (snd (remove_model example_fs ''models/m1''))
      = lookup_names [''models'', ''m4''] example_fs"
    using r1 m1 by blast
  then have e: "lookup (snd (remove_model example_fs ''models/m1'')) ''models/m4''
       = lookup example_fs ''models/m4''"
    by (simp add: lookup_def n4)
  from a b c e show ?thesis
    by (intro conjI)
qed

subsection \<open>Serialization options\<close>

lemma dict_pop_value:
  "fst (dict_pop d key default') = (case d key of None \<Rightarrow> default' | Some v \<Rightarrow> v)"
  by (simp add: dict_pop_def split: option.splits)

lemma dict_pop_rest:
  "snd (dict_pop d key default') = d |` (- {key})"
  by (auto simp: dict_pop_def restrict_map_def split: option.splits)

text \<open>
  Claim C8. Whatever the serializer is, \<open>json_to_string\<close> calls it with \<open>indent\<close> 2 and
  \<open>ensure_ascii\<close> false unless the caller gave the key, and then with the caller's value;
  the options it passes on are the caller's without these two keys, every other option
  unchanged. Without options the call is \<open>dumps obj 2 False\<close> with no further options.
\<close>

theorem json_to_string_options:
  "json_to_string dumps obj kwargs =
     dumps obj
       (case kwargs ''indent'' of None \<Rightarrow> PyInt 2 | Some v \<Rightarrow> v)
       (case kwargs ''ensure_ascii'' of None \<Rightarrow> PyBool False | Some v \<Rightarrow> v)
       (kwargs |` (- {''indent'', ''ensure_ascii''}))
   \<and> (kwargs |` (- {''indent'', ''ensure_ascii''})) ''indent'' = None
   \<and> (kwargs |` (- {''indent'', ''ensure_ascii''})) ''ensure_ascii'' = None
   \<and> json_to_string dumps obj Map.empty = dumps obj (PyInt 2) (PyBool False) Map.empty"
proof -
  have rest: "- {''indent''} \<inter> - {''ensure_ascii''} = - {''indent'', ''ensure_ascii''}"
    by blast
  have "json_to_string dumps obj kwargs =
     dumps obj
       (case kwargs ''indent'' of None \<Rightarrow> PyInt 2 | Some v \<Rightarrow> v)
       (case kwargs ''ensure_ascii'' of None \<Rightarrow> PyBool False | Some v \<Rightarrow> v)
       (kwargs |` (- {''indent'', ''ensure_ascii''}))"
    using dict_pop_value [of kwargs "''indent''" "PyInt 2"]
      dict_pop_rest [of kwargs "''indent''" "PyInt 2"]
      dict_pop_value [of "kwargs |` (- {''indent''})" "''ensure_ascii''" "PyBool False"]
      dict_pop_rest [of "kwargs |` (- {''indent''})" "''ensure_ascii''" "PyBool False"]
    by (simp add: json_to_string_def rest split_beta)
  moreover have "json_to_string dumps obj Map.empty = dumps obj (PyInt 2) (PyBool False) Map.empty"
    by (simp add: json_to_string_def dict_pop_def)
  ultimately show ?thesis
    by (simp add: restrict_map_def)
qed

subsection \<open>Relative paths\<close>

lemma str_split_no_sep: "x \<in> set (str_split c s) \<Longrightarrow> c \<notin> set x"
proof (induction s arbitrary: x)
  case Nil
  then show ?case by simp
next
  case (Cons a s)
  then show ?case
    by (cases "str_split c s") (auto split: if_splits)
qed

lemma str_split_nonempty: "str_split c s \<noteq> []"
  by (induction s) (auto split: list.splits)

lemma str_split_plain: "c \<notin> set x \<Longrightarrow> str_split c x = [x]"
  by (induction x) auto

lemma str_split_append_sep:
  "c \<notin> set x \<Longrightarrow> str_split c (x @ c # rest) = x # str_split c rest"
  by (induction x) auto

lemma str_split_join:
  "xs \<noteq> [] \<Longrightarrow> \<forall>x \<in> set xs. CHR ''/'' \<notin> set x \<Longrightarrow>
   str_split (CHR ''/'') (str_join ''/'' xs) = xs"
proof (induction "''/''" xs rule: str_join.induct)
  case 1
  then show ?case by simp
next
  case (2 x)
  then show ?case by (simp add: str_split_plain)
next
  case (3 x y ys)
  then show ?case
    using str_split_append_sep [of "CHR ''/''" x "str_join ''/'' (y # ys)"] by simp
qed

lemma normpath_loop_clean:
  "clean acc \<Longrightarrow> \<forall>x \<in> set comps. CHR ''/'' \<notin> set x \<Longrightarrow> clean (normpath_loop True acc comps)"
proof (induction comps arbitrary: acc)
  case Nil
  then show ?case by simp
next
  case (Cons c0 comps)
  have b: "clean (butlast acc)"
    using Cons.prems(1) by (auto simp: clean_def dest: in_set_butlastD)
  have a: "c0 \<noteq> [] \<Longrightarrow> c0 \<noteq> ''.'' \<Longrightarrow> c0 \<noteq> ''..'' \<Longrightarrow> clean (acc @ [c0])"
    using Cons.prems by (auto simp: clean_def)
  have c: "acc \<noteq> [] \<Longrightarrow> last acc \<noteq> ''..''"
    using Cons.prems(1) last_in_set [of acc] by (auto simp: clean_def)
  show ?case
    using Cons.IH [of acc] Cons.IH [of "butlast acc"] Cons.IH [of "acc @ [c0]"] Cons.prems a b c
    by auto
qed

lemma normpath_loop_forward:
  "clean ys \<Longrightarrow> normpath_loop True acc ys = acc @ ys"
  by (induction ys arbitrary: acc) (auto simp: clean_def)

lemma normpath_loop_back:
  "clean xs \<Longrightarrow>
   normpath_loop True (acc @ xs) (replicate (length xs) ''..'' @ ys) = normpath_loop True acc ys"
proof (induction xs rule: rev_induct)
  case Nil
  then show ?case by simp
next
  case (snoc x xs)
  then have "clean xs" and "x \<noteq> ''..''"
    by (auto simp: clean_def)
  with snoc.IH show ?case
    by (simp add: butlast_append)
qed


lemma filter_split_leading_slashes:
  "filter (\<lambda>x. x \<noteq> []) (str_split (CHR ''/'') (replicate k (CHR ''/'') @ s))
   = filter (\<lambda>x. x \<noteq> []) (str_split (CHR ''/'') s)"
  by (induction k) simp_all

lemma filter_split_join:
  assumes "\<forall>x \<in> set xs. x \<noteq> [] \<and> CHR ''/'' \<notin> set x"
  shows "filter (\<lambda>x. x \<noteq> []) (str_split (CHR ''/'') (str_join ''/'' xs)) = xs"
proof (cases xs)
  case Nil
  then show ?thesis by simp
next
  case (Cons y ys)
  then have "str_split (CHR ''/'') (str_join ''/'' xs) = xs"
    using assms str_split_join [of xs] by simp
  moreover have "filter (\<lambda>x. x \<noteq> []) xs = xs"
    using assms by (simp add: filter_id_conv)
  ultimately show ?thesis by simp
qed

lemma clean_names: "clean xs \<Longrightarrow> \<forall>x \<in> set xs. x \<noteq> [] \<and> CHR ''/'' \<notin> set x"
  by (simp add: clean_def)

lemma names_of_normpath:
  assumes "prefix ''/'' path"
  shows "filter (\<lambda>x. x \<noteq> []) (str_split (CHR ''/'') (os_path_normpath path))
         = normpath_loop True [] (str_split (CHR ''/'') path)"
    and "clean (normpath_loop True [] (str_split (CHR ''/'') path))"
proof -
  let ?new = "normpath_loop True [] (str_split (CHR ''/'') path)"
  show c: "clean ?new"
    by (rule normpath_loop_clean) (simp_all add: clean_def str_split_no_sep)
  from assms have ne: "path \<noteq> []"
    by auto
  have "\<exists>k. os_path_normpath path = replicate k (CHR ''/'') @ str_join ''/'' ?new"
  proof (cases "prefix ''//'' path \<and> \<not> prefix ''///'' path")
    case True
    with assms ne show ?thesis
      by (intro exI [of _ 2]) (simp add: os_path_normpath_def Let_def numeral_2_eq_2)
  next
    case False
    with assms ne show ?thesis
      by (intro exI [of _ 1]) (auto simp: os_path_normpath_def Let_def)
  qed
  then obtain k
    where np: "os_path_normpath path = replicate k (CHR ''/'') @ str_join ''/'' ?new"
    by blast
  show "filter (\<lambda>x. x \<noteq> []) (str_split (CHR ''/'') (os_path_normpath path)) = ?new"
    unfolding np filter_split_leading_slashes
    by (rule filter_split_join) (rule clean_names [OF c])
qed

lemma abs_names_loop:
  assumes "prefix ''/'' cwd"
  shows "clean (abs_names cwd p)"
proof -
  have "prefix ''/'' (os_path_join cwd p)" if "\<not> prefix ''/'' p"
    using assms that by (auto simp: os_path_join_def prefix_def)
  then show ?thesis
    using names_of_normpath [of "os_path_join cwd p"] names_of_normpath [of p]
    by (auto simp: abs_names_def os_path_abspath_def os_path_isabs_def)
qed

lemma commonprefix_take:
  "take (length (commonprefix xs ys)) xs = commonprefix xs ys"
  "take (length (commonprefix xs ys)) ys = commonprefix xs ys"
  by (induction xs ys rule: commonprefix.induct) auto

lemma commonprefix_le: "length (commonprefix xs ys) \<le> length xs"
  by (induction xs ys rule: commonprefix.induct) auto

lemma str_join_Cons:
  "str_join sep (a # p) = a @ concat (map (\<lambda>b. sep @ b) p)"
  by (induction sep "a # p" arbitrary: a p rule: str_join.induct) simp_all

lemma foldl_join_names:
  assumes "acc \<noteq> []" "last acc \<noteq> CHR ''/''"
    and "\<forall>b \<in> set p. b \<noteq> [] \<and> CHR ''/'' \<notin> set b"
  shows "foldl os_path_join acc p = acc @ concat (map (\<lambda>b. ''/'' @ b) p)"
  using assms
proof (induction p arbitrary: acc)
  case Nil
  then show ?case by simp
next
  case (Cons b p)
  from Cons.prems have b: "b \<noteq> []" "CHR ''/'' \<notin> set b"
    by auto
  then have hd: "\<not> prefix ''/'' b"
    by (cases b) auto
  have sf: "\<not> suffix ''/'' acc"
    using Cons.prems(1,2) by (auto simp: suffix_def)
  have j: "os_path_join acc b = acc @ ''/'' @ b"
    using hd sf Cons.prems(1) by (simp add: os_path_join_def)
  have "last b \<noteq> CHR ''/''"
    using b by (metis last_in_set)
  then have "last (acc @ ''/'' @ b) \<noteq> CHR ''/''"
    using b by simp
  then have "foldl os_path_join (acc @ ''/'' @ b) p
      = (acc @ ''/'' @ b) @ concat (map (\<lambda>b. ''/'' @ b) p)"
    using Cons.prems(3) by (intro Cons.IH) simp_all
  then show ?case
    by (simp add: j)
qed

lemma join_names:
  assumes "\<forall>b \<in> set (a # p). b \<noteq> [] \<and> CHR ''/'' \<notin> set b"
  shows "foldl os_path_join a p = str_join ''/'' (a # p)"
proof -
  from assms have a: "a \<noteq> []" "CHR ''/'' \<notin> set a"
    by auto
  then have "last a \<noteq> CHR ''/''"
    by (metis last_in_set)
  with a assms have "foldl os_path_join a p = a @ concat (map (\<lambda>b. ''/'' @ b) p)"
    by (intro foldl_join_names) simp_all
  then show ?thesis
    by (simp add: str_join_Cons)
qed

lemma Path_of_names:
  assumes "\<forall>c \<in> set rel. c \<noteq> [] \<and> c \<noteq> ''.'' \<and> CHR ''/'' \<notin> set c"
  shows "Path (case rel of [] \<Rightarrow> ''.'' | a # p \<Rightarrow> str_join ''/'' (a # p)) = PosixPath [] rel"
proof (cases rel)
  case Nil
  then show ?thesis
    by (simp add: Path_def)
next
  case (Cons a p)
  from assms Cons obtain x xs where a: "a = x # xs" "x \<noteq> CHR ''/''"
    by (cases a) auto
  have root: "\<not> prefix ''/'' (str_join ''/'' (a # p))"
    using a(2) by (auto simp: str_join_Cons a(1))
  have root2: "\<not> prefix ''//'' (str_join ''/'' (a # p))"
    using a(2) by (auto simp: str_join_Cons a(1))
  have "str_split (CHR ''/'') (str_join ''/'' rel) = rel"
    using assms Cons by (intro str_split_join) simp_all
  moreover have "filter (\<lambda>c. c \<noteq> [] \<and> c \<noteq> ''.'') rel = rel"
    using assms by (simp add: filter_id_conv)
  ultimately show ?thesis
    using root root2 Cons by (simp add: Path_def)
qed

lemma rel_list_names:
  assumes "clean names"
  shows "\<forall>c \<in> set (replicate n ''..'' @ names). c \<noteq> [] \<and> c \<noteq> ''.'' \<and> CHR ''/'' \<notin> set c"
proof
  fix c
  assume "c \<in> set (replicate n ''..'' @ names)"
  then consider "c = ''..''" | "c \<in> set names"
    by (cases "n = 0") auto
  then show "c \<noteq> [] \<and> c \<noteq> ''.'' \<and> CHR ''/'' \<notin> set c"
  proof cases
    case 1
    then show ?thesis by simp
  next
    case 2
    with assms show ?thesis
      unfolding clean_def by blast
  qed
qed

lemma clean_drop: "clean xs \<Longrightarrow> clean (drop n xs)"
  by (auto simp: clean_def dest: in_set_dropD)

lemma clean_no_dotdot: "clean xs \<Longrightarrow> ''..'' \<notin> set xs"
  by (auto simp: clean_def)

lemma os_path_relpath_names:
  assumes "path \<noteq> []"
  shows "os_path_relpath cwd path start =
    (case replicate (length (abs_names cwd start)
              - length (commonprefix (abs_names cwd start) (abs_names cwd path))) ''..''
          @ drop (length (commonprefix (abs_names cwd start) (abs_names cwd path)))
              (abs_names cwd path) of
       [] \<Rightarrow> Inr ''.''
     | a # p \<Rightarrow> Inr (foldl os_path_join a p))"
  unfolding os_path_relpath_def abs_names_def Let_def using assms by (simp only: if_False)

lemma commonprefix_split:
  "xs = commonprefix xs ys @ drop (length (commonprefix xs ys)) xs"
  "ys = commonprefix xs ys @ drop (length (commonprefix xs ys)) ys"
proof -
  show "xs = commonprefix xs ys @ drop (length (commonprefix xs ys)) xs"
    using append_take_drop_id [of "length (commonprefix xs ys)" xs]
    by (simp add: commonprefix_take)
  show "ys = commonprefix xs ys @ drop (length (commonprefix xs ys)) ys"
    using append_take_drop_id [of "length (commonprefix xs ys)" ys]
    by (simp add: commonprefix_take)
qed

lemma climb_and_descend:
  assumes "clean S" "clean P"
  shows "normpath_loop True S
           (replicate (length S - length (commonprefix S P)) ''..''
              @ drop (length (commonprefix S P)) P) = P"
proof -
  let ?cp = "commonprefix S P"
  let ?S' = "drop (length ?cp) S" and ?P' = "drop (length ?cp) P"
  have S: "S = ?cp @ ?S'" and P: "P = ?cp @ ?P'"
    by (rule commonprefix_split)+
  have len: "length ?S' = length S - length ?cp"
    by simp
  have "normpath_loop True (?cp @ ?S') (replicate (length ?S') ''..'' @ ?P')
      = normpath_loop True ?cp ?P'"
    using assms(1) by (intro normpath_loop_back clean_drop)
  also have "\<dots> = ?cp @ ?P'"
    using assms(2) by (intro normpath_loop_forward clean_drop)
  finally have "normpath_loop True (?cp @ ?S') (replicate (length ?S') ''..'' @ ?P') = ?cp @ ?P'" .
  then show ?thesis
    unfolding len S [symmetric] P [symmetric] .
qed

text \<open>
  Claim C4, as the code has it. An absent file (\<^verbatim>\<open>None\<close>) gives an absent result. The
  empty string is not absent for the code: \<^verbatim>\<open>relpath\<close> refuses it with \<^verbatim>\<open>ValueError\<close>.
  For every other file the result is a relative path (no root) whose parts are some
  number of \<open>..\<close> followed by plain names: no part is empty, \<open>.\<close> or contains a slash, so
  there is no trailing slash and no redundant segment. It is the file expressed relative
  to the base: walking these parts from the names of the absolute base path arrives at the
  names of the absolute file path. The working directory is an absolute path.
\<close>

theorem relative_normpath_relative:
  assumes "prefix ''/'' cwd"
  shows "relative_normpath cwd None base = Inr None
    \<and> relative_normpath cwd (Some []) base = Inl (ValueError ''no path specified'')
    \<and> (f \<noteq> [] \<longrightarrow>
         (\<exists>k rest.
            relative_normpath cwd (Some f) base
              = Inr (Some (PosixPath [] (replicate k ''..'' @ rest)))
            \<and> clean rest
            \<and> normpath_loop True (abs_names cwd base) (replicate k ''..'' @ rest)
                = abs_names cwd f))"
proof (intro conjI impI)
  show "relative_normpath cwd None base = Inr None"
    by (simp add: relative_normpath_def)
  show "relative_normpath cwd (Some []) base = Inl (ValueError ''no path specified'')"
    by (simp add: relative_normpath_def os_path_relpath_def)
next
  assume f: "f \<noteq> []"
  let ?S = "abs_names cwd base" and ?P = "abs_names cwd f"
  let ?k = "length ?S - length (commonprefix ?S ?P)"
  let ?rest = "drop (length (commonprefix ?S ?P)) ?P"
  let ?rel = "replicate ?k ''..'' @ ?rest"
  have cS: "clean ?S" and cP: "clean ?P"
    using assms by (rule abs_names_loop)+
  have rest: "clean ?rest"
    using cP by (rule clean_drop)
  have names: "\<forall>c \<in> set ?rel. c \<noteq> [] \<and> c \<noteq> ''.'' \<and> CHR ''/'' \<notin> set c"
    using rest by (rule rel_list_names)
  have "os_path_relpath cwd f base
      = Inr (case ?rel of [] \<Rightarrow> ''.'' | a # p \<Rightarrow> str_join ''/'' (a # p))"
  proof (cases ?rel)
    case Nil
    then show ?thesis
      by (simp only: os_path_relpath_names [OF f] list.case)
  next
    case (Cons a p)
    have "\<forall>b \<in> set (a # p). b \<noteq> [] \<and> CHR ''/'' \<notin> set b"
      using names unfolding Cons by blast
    then have "foldl os_path_join a p = str_join ''/'' (a # p)"
      by (rule join_names)
    then show ?thesis
      by (simp only: os_path_relpath_names [OF f] Cons list.case)
  qed
  then have "relative_normpath cwd (Some f) base = Inr (Some (PosixPath [] ?rel))"
    using Path_of_names [OF names] by (simp add: relative_normpath_def)
  moreover have "normpath_loop True ?S ?rel = ?P"
    using cS cP by (rule climb_and_descend)
  ultimately show "\<exists>k rest.
      relative_normpath cwd (Some f) base = Inr (Some (PosixPath [] (replicate k ''..'' @ rest)))
      \<and> clean rest
      \<and> normpath_loop True (abs_names cwd base) (replicate k ''..'' @ rest) = abs_names cwd f"
    using rest by blast
qed

lemma relative_normpath_example:
  "relative_normpath ''/home/u'' (Some ''/a/b/./c//'') ''/a/x/y''
     = Inr (Some (PosixPath [] [''..'', ''..'', ''b'', ''c'']))"
  "relative_normpath ''/home/u'' (Some ''models/m1/'') ''models''
     = Inr (Some (PosixPath [] [''m1'']))"
  by (simp_all add: relative_normpath_def os_path_relpath_def os_path_abspath_def
      os_path_normpath_def os_path_join_def os_path_isabs_def Path_def Let_def
      suffix_to_prefix)

theorem relative_normpath_relative_witness:
  "relative_normpath ''/home/u'' None ''/a/x/y'' = Inr None
   \<and> relative_normpath ''/home/u'' (Some []) ''/a/x/y'' = Inl (ValueError ''no path specified'')
   \<and> (\<exists>k rest.
         relative_normpath ''/home/u'' (Some ''/a/b/./c//'') ''/a/x/y''
           = Inr (Some (PosixPath [] (replicate k ''..'' @ rest)))
         \<and> clean rest
         \<and> normpath_loop True (abs_names ''/home/u'' ''/a/x/y'') (replicate k ''..'' @ rest)
             = abs_names ''/home/u'' ''/a/b/./c//'')
   \<and> relative_normpath ''/home/u'' (Some ''/a/b/./c//'') ''/a/x/y''
       = Inr (Some (PosixPath [] [''..'', ''..'', ''b'', ''c'']))"
proof -
  have cwd: "prefix ''/'' ''/home/u''"
    by simp
  have f: "''/a/b/./c//'' \<noteq> []"
    by simp
  note t = relative_normpath_relative [OF cwd, of "''/a/x/y''" "''/a/b/./c//''"]
  from t have a: "relative_normpath ''/home/u'' None ''/a/x/y'' = Inr None"
    by (rule conjunct1)
  from t have b: "relative_normpath ''/home/u'' (Some []) ''/a/x/y''
      = Inl (ValueError ''no path specified'')"
    by blast
  from t f have c: "\<exists>k rest.
         relative_normpath ''/home/u'' (Some ''/a/b/./c//'') ''/a/x/y''
           = Inr (Some (PosixPath [] (replicate k ''..'' @ rest)))
         \<and> clean rest
         \<and> normpath_loop True (abs_names ''/home/u'' ''/a/x/y'') (replicate k ''..'' @ rest)
             = abs_names ''/home/u'' ''/a/b/./c//''"
    by blast
  from a b c relative_normpath_example(1) show ?thesis
    by (intro conjI)
qed

text \<open>
  Claim C4 as stated returns an absent result for an empty-equivalent file too. For the
  empty string the call raises instead.
\<close>

theorem relative_normpath_empty_counterexample:
  "relative_normpath ''/home/u'' (Some '''') ''models'' \<noteq> Inr None"
  by (simp add: relative_normpath_def os_path_relpath_def)

end
